theory Spec2Isabelle
  imports Complex_Main "HOL-Library.Multiset"
begin

section \<open>The numerical environment of the VISSA selectors\<close>

text \<open>
  The selectors of \<^verbatim>\<open>auswahl/_vissa.py\<close> compute with numpy arrays, a numpy
  \<^verbatim>\<open>RandomState\<close> and a cross-validated PLS regression. Floating point numbers are
  modelled as rationals (exact arithmetic), arrays as lists, the counts
  \<open>n_submodels\<close>, \<open>selection_quantile\<close> and \<open>n_features_to_select\<close> as natural numbers,
  and the four library services whose results the source does not determine are fields
  of an environment:
  \<^item> \<open>shuffle\<close>: \<^verbatim>\<open>random_state.shuffle(p)\<close>, returning the shuffled array together with
    the generator's next state (the generator is a mutable object in the source);
  \<^item> \<open>seed_rng\<close>: \<^verbatim>\<open>RandomState(seed)\<close>, the generator made from an integer seed;
  \<^item> \<open>evaluate\<close>: \<^verbatim>\<open>_evaluate\<close> on \<^verbatim>\<open>X[:, mask]\<close>, the mean cross-validation score of
    the submodel that keeps the features of a boolean mask (\<open>X\<close>, \<open>y\<close>, the PLS estimator
    and the fold count are fixed inside it);
  \<^item> \<open>argsort\<close>: \<^verbatim>\<open>np.argsort\<close> with its default \<^verbatim>\<open>kind\<close> (quicksort, which numpy
    documents as not stable) on an array that may hold equal entries.
\<close>

record 'r env =
  shuffle :: "'r \<Rightarrow> nat list \<Rightarrow> nat list \<times> 'r"
  seed_rng :: "int \<Rightarrow> 'r"
  evaluate :: "bool list \<Rightarrow> rat"
  argsort :: "rat list \<Rightarrow> nat list"

text \<open>\<^verbatim>\<open>np.round\<close>: rounding to the nearest integer, halves to the even neighbour.\<close>

definition np_round :: "rat \<Rightarrow> int" where
  "np_round x =
     (let f = \<lfloor>x\<rfloor>; d = x - of_int f
      in if d < 1 / 2 then f
         else if 1 / 2 < d then f + 1
         else if even f then f else f + 1)"

text \<open>
  \<^verbatim>\<open>np.argsort\<close> on an array of pairwise distinct entries (a shuffled \<^verbatim>\<open>arange\<close>):
  the sorting permutation is unique there, so it is computed by an insertion sort of
  the indices.
\<close>

definition argsort_distinct :: "nat list \<Rightarrow> nat list" where
  "argsort_distinct xs = sort_key (\<lambda>i. xs ! i) [0..<length xs]"

text \<open>\<^verbatim>\<open>np.reshape(p, (rows, cols))\<close> of a flat array, as the list of its rows.\<close>

definition reshape :: "nat \<Rightarrow> nat \<Rightarrow> 'a list \<Rightarrow> 'a list list" where
  "reshape rows cols xs = map (\<lambda>i. take cols (drop (i * cols) xs)) [0..<rows]"

text \<open>\<^verbatim>\<open>np.sum\<close> of a boolean array: the number of true entries.\<close>

definition count_true :: "bool list \<Rightarrow> nat" where
  "count_true bs = length (filter (\<lambda>b. b) bs)"

section \<open>The weighted sampler: \<^verbatim>\<open>_VISSA._produce_submodels\<close>\<close>

text \<open>
  Lines 24 to 28: \<^verbatim>\<open>appearances = round(var_weights * n_submodels)\<close> and the matrix
  \<^verbatim>\<open>bsm <= appearances\<close>, whose row \<open>i\<close> compares \<^verbatim>\<open>1 .. n_submodels\<close> with
  \<^verbatim>\<open>appearances[i]\<close>.
\<close>

definition appearances :: "rat list \<Rightarrow> nat \<Rightarrow> int list" where
  "appearances var_weights n_submodels =
     map (\<lambda>w. np_round (w * of_nat n_submodels)) var_weights"

definition populate_bsm :: "rat list \<Rightarrow> nat \<Rightarrow> bool list list" where
  "populate_bsm var_weights n_submodels =
     map (\<lambda>a. map (\<lambda>j. int j \<le> a) [1..<n_submodels + 1])
       (appearances var_weights n_submodels)"

text \<open>
  Lines 31 to 38: one shuffled \<^verbatim>\<open>arange(n_submodels * n_feats)\<close>, cut into rows,
  gives by \<^verbatim>\<open>argsort\<close> one permutation of the columns for every row; the matrix is
  read through the index pairs \<^verbatim>\<open>(row_selector, p)\<close> and cut into rows again. The
  generator's next state is returned with the matrix.
\<close>

definition produce_submodels ::
  "'r env \<Rightarrow> rat list \<Rightarrow> nat \<Rightarrow> 'r \<Rightarrow> bool list list \<times> 'r" where
  "produce_submodels e var_weights n_submodels random_state =
     (let n_feats = length var_weights;
          bsm = populate_bsm var_weights n_submodels;
          (p, random_state') = shuffle e random_state [0..<n_submodels * n_feats];
          p = reshape n_feats n_submodels p;
          p = concat (map argsort_distinct p);
          row_selector = concat (map (replicate n_submodels) [0..<n_feats])
      in (reshape n_feats n_submodels (map (\<lambda>(r, c). bsm ! r ! c) (zip row_selector p)),
          random_state'))"

section \<open>Errors\<close>

text \<open>
  The Python exceptions the modelled code can raise: \<open>ValueError\<close> when a tuple
  unpacking finds too few values, \<open>TypeError\<close> for an operator applied to \<^verbatim>\<open>None\<close>,
  \<open>IndexError\<close> for an array index out of bounds, \<open>ZeroDivisionError\<close>, and
  \<open>KeyError\<close> with its message.
\<close>

datatype error = ValueError | TypeError | IndexError | ZeroDivisionError | KeyError string

section \<open>Scoring the submodels: \<^verbatim>\<open>_VISSA._evaluate_submodels\<close>\<close>

text \<open>
  Submodel \<open>i\<close> keeps the features of column \<open>i\<close> of the sampling matrix,
  \<^verbatim>\<open>X[:, bsm[:, i]]\<close>; the result pairs its score with its index. The source counts
  the submodels by \<^verbatim>\<open>self.n_submodels\<close>, the value that \<open>_fit\<close> also passes on as the
  argument \<open>n_submodels\<close>.
\<close>

definition column :: "bool list list \<Rightarrow> nat \<Rightarrow> bool list" where
  "column bsm i = map (\<lambda>row. row ! i) bsm"

definition evaluate_submodels :: "'r env \<Rightarrow> bool list list \<Rightarrow> nat \<Rightarrow> (rat \<times> nat) list" where
  "evaluate_submodels e bsm n_submodels =
     map (\<lambda>i. (evaluate e (column bsm i), i)) [0..<n_submodels]"

section \<open>The weight-refinement loop: \<^verbatim>\<open>_VISSA._yield_best_weights\<close>\<close>

text \<open>
  Lines 63 to 70 of one round: sample a matrix from \<open>var_weights\<close>, score its
  columns, sort them by descending score (\<^verbatim>\<open>sorted\<close> is stable) and keep the first
  \<open>selection_quantile\<close> of them.
\<close>

definition top_submodels ::
  "'r env \<Rightarrow> rat list \<Rightarrow> nat \<Rightarrow> nat \<Rightarrow> 'r \<Rightarrow> bool list list \<times> (rat \<times> nat) list \<times> 'r" where
  "top_submodels e var_weights n_submodels selection_quantile random_state =
     (let (bsm, random_state') = produce_submodels e var_weights n_submodels random_state;
          submodels = evaluate_submodels e bsm n_submodels;
          submodels_sorted = sort_key (\<lambda>x. - fst x) submodels
      in (bsm, take selection_quantile submodels_sorted, random_state'))"

text \<open>
  \<^verbatim>\<open>top_scores, top_models = list(zip(*top))\<close>: unpacking the transposed list needs
  two tuples, and the transpose of an empty list is empty.
\<close>

definition unzip_top :: "(rat \<times> nat) list \<Rightarrow> error + (rat list \<times> nat list)" where
  "unzip_top tops = (if tops = [] then Inl ValueError else Inr (map fst tops, map snd tops))"

definition np_mean :: "rat list \<Rightarrow> rat" where
  "np_mean xs = sum_list xs / of_nat (length xs)"

text \<open>Line 76: \<^verbatim>\<open>np.sum(bsm[:, top_models], axis=1) / selection_quantile\<close>.\<close>

definition top_weights :: "bool list list \<Rightarrow> nat list \<Rightarrow> nat \<Rightarrow> rat list" where
  "top_weights bsm top_models selection_quantile =
     map (\<lambda>row. of_nat (count_true (map (\<lambda>m. row ! m) top_models))
                / of_nat selection_quantile) bsm"

definition sentinel :: rat where
  "sentinel = - 10000000"

text \<open>
  The loop \<^verbatim>\<open>for i in range(5)\<close> with the rounds still to run as the first numeric
  argument. The state is \<open>(best_score, best_var_weights, random_state)\<close>;
  \<open>best_var_weights\<close> starts as \<^verbatim>\<open>None\<close>. Every round samples from the same
  \<open>var_weights\<close>: the source never assigns to it. An exception leaves the generator
  in the state it had reached, so it is returned with the error.
\<close>

fun refine :: "'r env \<Rightarrow> rat list \<Rightarrow> nat \<Rightarrow> nat \<Rightarrow> nat \<Rightarrow> rat \<times> rat list option \<times> 'r
    \<Rightarrow> (error \<times> 'r) + (rat \<times> rat list option \<times> 'r)" where
  "refine e var_weights n_submodels selection_quantile 0 st = Inr st"
| "refine e var_weights n_submodels selection_quantile (Suc k)
      (best_score, best_var_weights, random_state) =
     (case top_submodels e var_weights n_submodels selection_quantile random_state of
        (bsm, tops, random_state') \<Rightarrow>
          (case unzip_top tops of
             Inl err \<Rightarrow> Inl (err, random_state')
           | Inr (top_scores, top_models) \<Rightarrow>
               (let avg_top_scores = np_mean top_scores
                in if avg_top_scores > best_score
                   then refine e var_weights n_submodels selection_quantile k
                          (avg_top_scores,
                           Some (top_weights bsm top_models selection_quantile),
                           random_state')
                   else Inr (best_score, best_var_weights, random_state'))))"

definition yield_best_weights :: "'r env \<Rightarrow> rat list \<Rightarrow> nat \<Rightarrow> 'r \<Rightarrow> nat
    \<Rightarrow> (error \<times> 'r) + (rat \<times> rat list option \<times> 'r)" where
  "yield_best_weights e var_weights n_submodels random_state selection_quantile =
     refine e var_weights n_submodels selection_quantile 5 (sentinel, None, random_state)"

text \<open>
  The same loop with a record of every round it runs: the round's average top score,
  the running best score it was compared with, and the weights the round stored (when
  it improved). The record is appended to a trace that the loop returns beside its result.
\<close>

record round_log =
  round_avg :: rat
  round_best :: rat
  round_weights :: "rat list option"

definition improved :: "round_log \<Rightarrow> bool" where
  "improved r = (round_avg r > round_best r)"

fun refine_logged :: "'r env \<Rightarrow> rat list \<Rightarrow> nat \<Rightarrow> nat \<Rightarrow> nat
    \<Rightarrow> rat \<times> rat list option \<times> 'r \<Rightarrow> round_log list
    \<Rightarrow> ((error \<times> 'r) + (rat \<times> rat list option \<times> 'r)) \<times> round_log list" where
  "refine_logged e var_weights n_submodels selection_quantile 0 st trace = (Inr st, trace)"
| "refine_logged e var_weights n_submodels selection_quantile (Suc k)
      (best_score, best_var_weights, random_state) trace =
     (case top_submodels e var_weights n_submodels selection_quantile random_state of
        (bsm, tops, random_state') \<Rightarrow>
          (case unzip_top tops of
             Inl err \<Rightarrow> (Inl (err, random_state'), trace)
           | Inr (top_scores, top_models) \<Rightarrow>
               (let avg_top_scores = np_mean top_scores
                in if avg_top_scores > best_score
                   then refine_logged e var_weights n_submodels selection_quantile k
                          (avg_top_scores,
                           Some (top_weights bsm top_models selection_quantile),
                           random_state')
                          (trace @ [\<lparr>round_avg = avg_top_scores, round_best = best_score,
                                   round_weights =
                                     Some (top_weights bsm top_models selection_quantile)\<rparr>])
                   else (Inr (best_score, best_var_weights, random_state'),
                         trace @ [\<lparr>round_avg = avg_top_scores, round_best = best_score,
                                  round_weights = None\<rparr>]))))"

definition yield_best_weights_logged :: "'r env \<Rightarrow> rat list \<Rightarrow> nat \<Rightarrow> 'r \<Rightarrow> nat
    \<Rightarrow> ((error \<times> 'r) + (rat \<times> rat list option \<times> 'r)) \<times> round_log list" where
  "yield_best_weights_logged e var_weights n_submodels random_state selection_quantile =
     refine_logged e var_weights n_submodels selection_quantile 5
       (sentinel, None, random_state) []"

section \<open>The outer convergence loop: \<^verbatim>\<open>VISSA._fit\<close>\<close>

text \<open>
  The estimator object: the constructor's parameters that \<open>_fit\<close> reads and the two
  attributes it writes, \<^verbatim>\<open>weights_\<close> and \<^verbatim>\<open>support_\<close>, as the fields \<open>weights_attr\<close> and
  \<open>support_attr\<close> (\<open>None\<close> while unset or holding \<^verbatim>\<open>None\<close>). \<open>n_jobs\<close>,
  \<open>n_cv_folds\<close> and \<open>pls\<close> only reach the scorer, which is the environment's
  \<open>evaluate\<close>. \<open>random_state\<close> is an integer seed or a generator object; a generator
  object is shared with the caller, so the state it has after a call is stored back.
  (\<^verbatim>\<open>random_state=None\<close> selects numpy's process-wide generator object, which behaves
  as an \<open>Instance\<close>.)
\<close>

datatype 'r random_state = Seed int | Instance 'r

record 'r vissa =
  n_submodels :: nat
  random_state :: "'r random_state"
  weights_attr :: "rat list option"
  support_attr :: "bool list option"

text \<open>
  \<^verbatim>\<open>sklearn.utils.check_random_state\<close>: a fresh generator for a seed, the object
  itself otherwise; and the generator an estimator holds after a call.
\<close>

fun check_random_state :: "'r env \<Rightarrow> 'r random_state \<Rightarrow> 'r" where
  "check_random_state e (Seed s) = seed_rng e s"
| "check_random_state e (Instance r) = r"

fun store_random_state :: "'r random_state \<Rightarrow> 'r \<Rightarrow> 'r random_state" where
  "store_random_state (Seed s) r = Seed s"
| "store_random_state (Instance r0) r = Instance r"

text \<open>Python's \<^verbatim>\<open>int(x)\<close> on a float: truncation towards zero.\<close>

definition py_int :: "rat \<Rightarrow> int" where
  "py_int x = (if 0 \<le> x then \<lfloor>x\<rfloor> else \<lceil>x\<rceil>)"

text \<open>Line 158: \<^verbatim>\<open>selection_quantile = int(0.05 * self.n_submodels)\<close>.\<close>

definition selection_quantile_of :: "nat \<Rightarrow> nat" where
  "selection_quantile_of n_subs = nat (py_int (5 / 100 * of_nat n_subs))"

text \<open>Line 177: the certainty threshold \<^verbatim>\<open>(n_subs - 0.5) / n_subs\<close>.\<close>

definition threshold :: "nat \<Rightarrow> rat" where
  "threshold n_subs = (of_nat n_subs - 1 / 2) / of_nat n_subs"

text \<open>
  The local variables of \<open>_fit\<close> when its \<^verbatim>\<open>while True\<close> loop is left:
  \<open>top_score\<close>, \<open>top_var_weights\<close>, \<open>score\<close>, \<open>var_weights\<close> and the generator.
  \<open>var_weights\<close> is the value last returned by the refinement loop, which may be
  \<^verbatim>\<open>None\<close>.
\<close>

record 'r fit_locals =
  final_top_score :: rat
  final_top_var_weights :: "rat list"
  final_score :: rat
  final_var_weights :: "rat list option"
  final_random_state :: 'r

text \<open>
  Lines 163 to 178. The loop has no bound, so the model is a partial function: \<open>None\<close>
  is a run that never leaves the loop (lemma \<open>fit_loop_terminates\<close> shows there is
  none). In the accepting branch line 177 first divides by \<open>n_subs\<close> for the threshold
  and then compares \<open>var_weights\<close> with it, which fails for \<^verbatim>\<open>None\<close>.
\<close>

partial_function (option) fit_loop ::
  "'r env \<Rightarrow> nat \<Rightarrow> nat \<Rightarrow> nat \<Rightarrow> rat \<Rightarrow> rat list \<Rightarrow> 'r
    \<Rightarrow> ((error \<times> 'r) + 'r fit_locals) option" where
  "fit_loop e n_subs selection_quantile n_features_to_select top_sc top_vw random_st =
     (case yield_best_weights e top_vw n_subs random_st selection_quantile of
        Inl err \<Rightarrow> Some (Inl err)
      | Inr (sc, vw_opt, random_st') \<Rightarrow>
          if sc > top_sc then
            (if n_subs = 0 then Some (Inl (ZeroDivisionError, random_st'))
             else
               (case vw_opt of
                  None \<Rightarrow> Some (Inl (TypeError, random_st'))
                | Some vw \<Rightarrow>
                    if n_features_to_select
                         \<le> length (filter (\<lambda>x. threshold n_subs \<le> x) vw)
                    then Some (Inr \<lparr>final_top_score = sc, final_top_var_weights = vw,
                                    final_score = sc, final_var_weights = vw_opt,
                                    final_random_state = random_st'\<rparr>)
                    else fit_loop e n_subs selection_quantile n_features_to_select
                           sc vw random_st'))
          else Some (Inr \<lparr>final_top_score = top_sc, final_top_var_weights = top_vw,
                          final_score = sc, final_var_weights = vw_opt,
                          final_random_state = random_st'\<rparr>))"

declare fit_loop.simps [code]

text \<open>
  Line 182: \<^verbatim>\<open>support_[indices] = True\<close> on the all-false mask; an index beyond the
  mask is an \<open>IndexError\<close>.
\<close>

definition assign_true :: "bool list \<Rightarrow> nat list \<Rightarrow> error + bool list" where
  "assign_true marks idx =
     (if \<forall>i \<in> set idx. i < length marks
      then Inr (foldl (\<lambda>m i. m[i := True]) marks idx)
      else Inl IndexError)"

text \<open>Line 182, the indices: \<^verbatim>\<open>np.argsort(-var_weights)[: n_features_to_select]\<close>.\<close>

definition top_indices :: "'r env \<Rightarrow> rat list \<Rightarrow> nat \<Rightarrow> nat list" where
  "top_indices e vw n_features_to_select = take n_features_to_select (argsort e (map uminus vw))"

text \<open>
  \<open>_fit\<close> on an estimator, for a matrix \<open>X\<close> of \<open>n_features\<close> columns. The result is
  the exception raised, if any, and the estimator as the call leaves it: line 180 and
  181 have already assigned \<^verbatim>\<open>weights_\<close> and the all-false \<^verbatim>\<open>support_\<close> when line 182
  negates \<^verbatim>\<open>None\<close>.
\<close>

definition fit :: "'r env \<Rightarrow> nat \<Rightarrow> nat \<Rightarrow> 'r vissa \<Rightarrow> (error option \<times> 'r vissa) option" where
  "fit e n_features n_features_to_select est =
     (let random_st = check_random_state e (random_state est);
          selection_quantile = selection_quantile_of (n_submodels est);
          n_subs = n_submodels est
      in case fit_loop e n_subs selection_quantile n_features_to_select
                sentinel (replicate n_features (1 / 2)) random_st of
           None \<Rightarrow> None
         | Some (Inl (err, random_st')) \<Rightarrow>
             Some (Some err,
                   est\<lparr>random_state := store_random_state (random_state est) random_st'\<rparr>)
         | Some (Inr loc) \<Rightarrow>
             (let est1 = est\<lparr>random_state := store_random_state (random_state est) (final_random_state loc),
                             weights_attr := final_var_weights loc,
                             support_attr := Some (replicate n_features False)\<rparr>
              in case final_var_weights loc of
                   None \<Rightarrow> Some (Some TypeError, est1)
                 | Some vw \<Rightarrow>
                     (case assign_true (replicate n_features False)
                             (top_indices e vw n_features_to_select) of
                        Inl err \<Rightarrow> Some (Some err, est1)
                      | Inr marks \<Rightarrow> Some (None, est1\<lparr>support_attr := Some marks\<rparr>))))"

section \<open>Interval expansion: \<^verbatim>\<open>iVISSA._expand_interval\<close>\<close>

text \<open>
  Reading \<^verbatim>\<open>var_weights[i]\<close> of a numpy array: a negative index counts from the end,
  an index outside \<open>[-len, len)\<close> raises \<open>IndexError\<close>.
\<close>

definition np_get :: "rat list \<Rightarrow> int \<Rightarrow> error + rat" where
  "np_get xs i =
     (let n = int (length xs); j = (if i < 0 then n + i else i)
      in if 0 \<le> j \<and> j < n then Inr (xs ! nat j) else Inl IndexError)"

text \<open>\<^verbatim>\<open>var_weights[i] = v\<close>, with the same index rule.\<close>

definition np_set :: "rat list \<Rightarrow> int \<Rightarrow> rat \<Rightarrow> error + rat list" where
  "np_set xs i v =
     (let n = int (length xs); j = (if i < 0 then n + i else i)
      in if 0 \<le> j \<and> j < n then Inr (xs[nat j := v]) else Inl IndexError)"

text \<open>
  \<^verbatim>\<open>_evaluate(X[:, columns], ...)\<close>: selecting columns of \<open>X\<close> by a list of integer
  indices raises \<open>IndexError\<close> when one of them is outside \<open>[-n_cols, n_cols)\<close>;
  \<open>ev\<close> is the cross-validation score of the selected columns.
\<close>

definition evaluate_columns :: "(int list \<Rightarrow> rat) \<Rightarrow> nat \<Rightarrow> int list \<Rightarrow> error + rat" where
  "evaluate_columns ev n_cols cols =
     (if \<forall>c \<in> set cols. - int n_cols \<le> c \<and> c < int n_cols
      then Inr (ev cols) else Inl IndexError)"

text \<open>The local variables of \<open>_expand_interval\<close> that its loop changes.\<close>

record expand_state =
  st_borders :: "int list"
  st_index :: int
  st_progress :: bool
  st_score :: rat
  st_features :: "int list"
  st_var_weights :: "rat list"

text \<open>
  Lines 232 to 245, the first statement of the loop body: if the border of the
  current side is not below its limit, absorb the neighbour when its weight reaches
  the threshold, else probe it with the scorer and keep it when the score improves.
\<close>

definition probe :: "(int list \<Rightarrow> rat) \<Rightarrow> nat \<Rightarrow> rat \<Rightarrow> int list \<Rightarrow> expand_state
    \<Rightarrow> error + expand_state" where
  "probe ev n_cols thr limits st =
     (let i = nat (st_index st); b = st_borders st ! i
      in if b \<ge> limits ! i then
           (case np_get (st_var_weights st) b of
              Inl err \<Rightarrow> Inl err
            | Inr w \<Rightarrow>
                if w \<ge> thr then
                  Inr (st\<lparr>st_borders := (st_borders st)
                             [i := b + ((1 - st_index st) * - 1 + st_index st * 1)],
                          st_progress := True\<rparr>)
                else
                  (case evaluate_columns ev n_cols (st_features st @ [b]) of
                     Inl err \<Rightarrow> Inl err
                   | Inr feature_score \<Rightarrow>
                       if feature_score > st_score st then
                         (case np_set (st_var_weights st) b 1 of
                            Inl err \<Rightarrow> Inl err
                          | Inr ws \<Rightarrow>
                              Inr (st\<lparr>st_score := feature_score,
                                      st_features := st_features st @ [b],
                                      st_var_weights := ws,
                                      st_borders := (st_borders st)
                                        [i := b + ((1 - st_index st) * - 1 + st_index st * 1)],
                                      st_progress := True\<rparr>))
                       else Inr st))
         else Inr st)"

text \<open>
  The \<^verbatim>\<open>while True\<close> loop, lines 231 to 252; \<open>None\<close> is a run that never leaves it.
  The result is \<open>(features, score)\<close> and the weight array, which the source changes
  in place.
\<close>

partial_function (option) expand_loop ::
  "(int list \<Rightarrow> rat) \<Rightarrow> nat \<Rightarrow> rat \<Rightarrow> int list \<Rightarrow> expand_state
    \<Rightarrow> (error + (int list \<times> rat \<times> rat list)) option" where
  "expand_loop ev n_cols thr limits st =
     (case probe ev n_cols thr limits st of
        Inl err \<Rightarrow> Some (Inl err)
      | Inr st' \<Rightarrow>
          if st_index st' = 1 \<and> \<not> st_progress st'
          then Some (Inr (st_features st', st_score st', st_var_weights st'))
          else expand_loop ev n_cols thr limits
                 (st'\<lparr>st_progress := (if st_index st' = 1 then False else st_progress st'),
                      st_index := (st_index st' + 1) mod 2\<rparr>))"

declare expand_loop.simps [code]

text \<open>
  \<open>_expand_interval\<close> for a matrix \<open>X\<close> of \<open>n_cols\<close> columns: the threshold of line
  224 (a division by the submodel count \<open>n_subs\<close>), the borders and limits of lines 227 and 228.
\<close>

definition expand_interval :: "(int list \<Rightarrow> rat) \<Rightarrow> nat \<Rightarrow> rat list \<Rightarrow> rat \<Rightarrow> int list
    \<Rightarrow> int \<Rightarrow> nat \<Rightarrow> (error + (int list \<times> rat \<times> rat list)) option" where
  "expand_interval ev n_cols var_weights score features new_feature n_subs =
     (if n_subs = 0 then Some (Inl ZeroDivisionError)
      else expand_loop ev n_cols (threshold n_subs) [0, - (int n_cols - 1)]
             \<lparr>st_borders = [new_feature - 1, new_feature + 1], st_index = 0,
              st_progress = True, st_score = score, st_features = features,
              st_var_weights = var_weights\<rparr>)"

section \<open>The results store: \<^verbatim>\<open>benchmarking/util/data_handling.py\<close>\<close>

text \<open>
  The labels of the store's indices: dataset, method and metric names are strings,
  runs are integers, feature configurations are \<^verbatim>\<open>FeatureDescriptor\<close> objects. The
  class \<^verbatim>\<open>FeatureDescriptor\<close> (\<^verbatim>\<open>auswahl/_base.py\<close>) is not among the sources; a
  descriptor is modelled as a wrapper \<open>Feat\<close> around the key it was built from, an
  integer or a tuple of integers, which is its \<^verbatim>\<open>org_key\<close>.
\<close>

datatype item = Str string | Num int | Tup "int list" | Feat item

















text \<open>
  The \<^verbatim>\<open>DataHandler\<close> fields that the retrieval calls use, and the column indices that
  the constructor builds from them (lines 66 to 81).
\<close>

record data_handler =
  datasets :: "string list"
  methods :: "string list"
  features :: "item list"
  reg_metrics :: "string list"
  stab_metrics :: "string list"
  n_runs :: nat



















section \<open>The scores a refinement round can return\<close>

text \<open>
  The averages of \<open>min selection_quantile n_submodels\<close> scores of masks over
  \<open>n_features\<close> features: a finite set, which bounds the number of strict
  improvements of the outer loop.
\<close>

definition avg_candidates :: "'r env \<Rightarrow> nat \<Rightarrow> nat \<Rightarrow> nat \<Rightarrow> rat set" where
  "avg_candidates e n_features n_subs selection_quantile =
     np_mean ` {l. set l \<subseteq> evaluate e ` {m. length m = n_features}
                  \<and> length l = min selection_quantile n_subs}"

section \<open>What an \<^verbatim>\<open>argsort\<close> guarantees\<close>



section \<open>A concrete environment\<close>

text \<open>
  A small deterministic environment on which the definitions can be run. Its generator
  state is a counter: a shuffle rotates the array by the counter and increments it, and
  seeding sets the counter. Its \<open>argsort\<close> is the stable insertion sort of the indices.
\<close>

definition argsort_stable :: "rat list \<Rightarrow> nat list" where
  "argsort_stable xs = sort_key (\<lambda>i. xs ! i) [0..<length xs]"

definition rotation_env :: "(bool list \<Rightarrow> rat) \<Rightarrow> (rat list \<Rightarrow> nat list) \<Rightarrow> nat env" where
  "rotation_env ev srt =
     \<lparr>shuffle = (\<lambda>k p. (rotate k p, Suc k)), seed_rng = nat, evaluate = ev, argsort = srt\<rparr>"



section \<open>Properties of the weighted sampler\<close>






lemma length_argsort_distinct: "length (argsort_distinct xs) = length xs"
  by (simp add: argsort_distinct_def)

lemma reshape_concat:
  assumes "length xss = rows" "\<forall>xs \<in> set xss. length xs = cols"
  shows "reshape rows cols (concat xss) = xss"
  using assms
proof (induction xss arbitrary: rows rule: rev_induct)
  case Nil
  then show ?case by (simp add: reshape_def)
next
  case (snoc xs xss)
  then obtain r where r: "rows = Suc r" "length xss = r" by auto
  have len: "length (concat xss) = r * cols" using snoc.prems(2) r(2)
    by (induction xss arbitrary: r) auto
  have IH: "reshape r cols (concat xss) = xss" using snoc by (simp add: r)
  have a: "map (\<lambda>i. take cols (drop (i * cols) (concat xss @ xs))) [0..<r]
      = map (\<lambda>i. take cols (drop (i * cols) (concat xss))) [0..<r]"
  proof (rule map_cong[OF refl])
    fix i assume "i \<in> set [0..<r]"
    then have "Suc i \<le> r" by simp
    then have "Suc i * cols \<le> r * cols" using mult_le_mono1 by blast
    then have "i * cols + cols \<le> length (concat xss)" using len by simp
    then show "take cols (drop (i * cols) (concat xss @ xs))
        = take cols (drop (i * cols) (concat xss))"
      by simp
  qed
  have b: "take cols (drop (r * cols) (concat xss @ xs)) = xs"
    using len snoc.prems(2) by simp
  have "reshape rows cols (concat (xss @ [xs]))
      = map (\<lambda>i. take cols (drop (i * cols) (concat xss @ xs))) [0..<r]
        @ [take cols (drop (r * cols) (concat xss @ xs))]"
    by (simp add: reshape_def r)
  also have "\<dots> = xss @ [xs]" using IH unfolding reshape_def by (simp only: a b)
  finally show ?case .
qed

lemma zip_concat:
  assumes "length xss = length yss" "\<forall>i < length xss. length (xss ! i) = length (yss ! i)"
  shows "zip (concat xss) (concat yss)
    = concat (map (\<lambda>i. zip (xss ! i) (yss ! i)) [0..<length xss])"
  using assms
proof (induction xss yss rule: list_induct2)
  case Nil
  then show ?case by simp
next
  case (Cons x xs y ys)
  have l: "length x = length y" using Cons.prems by auto
  have "\<forall>i<length xs. length (xs ! i) = length (ys ! i)" using Cons.prems by auto
  from Cons.IH[OF this]
  have IH: "zip (concat xs) (concat ys)
      = concat (map (\<lambda>i. zip (xs ! i) (ys ! i)) [0..<length xs])" .
  have "[0..<length (x # xs)] = 0 # map Suc [0..<length xs]"
    by (simp add: upt_conv_Cons map_Suc_upt del: upt_Suc)
  then show ?case using l IH by (simp add: o_def del: upt_Suc)
qed

lemma length_populate_bsm: "length (populate_bsm ws n) = length ws"
  by (simp add: populate_bsm_def appearances_def)


lemma reshape_rows:
  assumes "length xs = rows * cols"
  shows "length (reshape rows cols xs) = rows"
    and "\<forall>r \<in> set (reshape rows cols xs). length r = cols"
proof -
  show "length (reshape rows cols xs) = rows" by (simp add: reshape_def)
  show "\<forall>r \<in> set (reshape rows cols xs). length r = cols"
  proof
    fix r assume "r \<in> set (reshape rows cols xs)"
    then obtain i where i: "i < rows" "r = take cols (drop (i * cols) xs)"
      by (auto simp: reshape_def)
    from i(1) have "Suc i * cols \<le> rows * cols" using mult_le_mono1 Suc_leI by blast
    then have "cols \<le> length xs - i * cols" using assms by simp
    then show "length r = cols" using i(2) by simp
  qed
qed

text \<open>
  Row \<open>i\<close> of the returned matrix is row \<open>i\<close> of the populated matrix read through
  the sorting permutation of row \<open>i\<close> of the shuffled index array.
\<close>

lemma produce_submodels_rows:
  assumes len: "length (fst (shuffle e rs [0..<n * length ws])) = n * length ws"
  shows "fst (produce_submodels e ws n rs) =
     map (\<lambda>i. map (\<lambda>c. populate_bsm ws n ! i ! c)
        (argsort_distinct (reshape (length ws) n (fst (shuffle e rs [0..<n * length ws])) ! i)))
       [0..<length ws]"
proof -
  define F where "F = length ws"
  define q where "q = fst (shuffle e rs [0..<n * F])"
  define P where "P = map argsort_distinct (reshape F n q)"
  define B where "B = populate_bsm ws n"
  have lq: "length q = F * n" using len by (simp add: q_def F_def mult.commute)
  have lP: "length P = F" by (simp add: P_def reshape_def)
  have rP: "\<forall>i < F. length (P ! i) = n"
    using reshape_rows[OF lq] by (simp add: P_def length_argsort_distinct)
  have z: "zip (concat (map (replicate n) [0..<F])) (concat P)
      = concat (map (\<lambda>i. zip (map (replicate n) [0..<F] ! i) (P ! i))
          [0..<length (map (replicate n) [0..<F])])"
    by (rule zip_concat) (use lP rP in auto)
  have z2: "map (\<lambda>(r, c). B ! r ! c) (zip (concat (map (replicate n) [0..<F])) (concat P))
      = concat (map (\<lambda>i. map (\<lambda>c. B ! i ! c) (P ! i)) [0..<F])"
    unfolding z using rP
    by (auto simp: map_concat o_def zip_replicate1 intro!: arg_cong[where f=concat])
  have "reshape F n (concat (map (\<lambda>i. map (\<lambda>c. B ! i ! c) (P ! i)) [0..<F]))
      = map (\<lambda>i. map (\<lambda>c. B ! i ! c) (P ! i)) [0..<F]"
    by (rule reshape_concat) (use rP in auto)
  then have "fst (produce_submodels e ws n rs)
      = map (\<lambda>i. map (\<lambda>c. B ! i ! c) (P ! i)) [0..<F]"
    using z2 by (simp add: produce_submodels_def Let_def split_beta F_def q_def P_def B_def)
  then show ?thesis using lP
    by (simp add: P_def B_def q_def F_def reshape_def)
qed

lemma produce_submodels_shape:
  assumes len: "length (fst (shuffle e rs [0..<n * length ws])) = n * length ws"
  shows "length (fst (produce_submodels e ws n rs)) = length ws"
    and "\<forall>row \<in> set (fst (produce_submodels e ws n rs)). length row = n"
proof -
  have lq: "length (fst (shuffle e rs [0..<n * length ws])) = length ws * n"
    using len by (simp add: mult.commute)
  show "length (fst (produce_submodels e ws n rs)) = length ws"
    by (simp add: produce_submodels_rows[OF len])
  show "\<forall>row \<in> set (fst (produce_submodels e ws n rs)). length row = n"
    using reshape_rows[OF lq]
    by (auto simp: produce_submodels_rows[OF len] length_argsort_distinct)
qed



section \<open>Properties of the weight-refinement loop\<close>

lemma refine_logged_append:
  "refine_logged e w n q k st tr
     = (fst (refine_logged e w n q k st []), tr @ snd (refine_logged e w n q k st []))"
proof (induction k arbitrary: st tr)
  case 0
  then show ?case by simp
next
  case (Suc k st)
  obtain b bw rs where st: "st = (b, bw, rs)" by (metis prod_cases3)
  show ?case
    unfolding st
    by (auto simp: Let_def Suc.IH[of _ "tr @ [x]" for x] Suc.IH[of _ "[x]" for x]
        split: prod.splits sum.splits)
qed

lemma fst_refine_logged: "fst (refine_logged e w n q k st tr) = refine e w n q k st"
proof (induction k arbitrary: st tr)
  case 0
  then show ?case by simp
next
  case (Suc k st)
  obtain b bw rs where st: "st = (b, bw, rs)" by (metis prod_cases3)
  show ?case unfolding st by (simp add: Let_def Suc.IH split: prod.splits sum.splits)
qed

lemma refine_logged_step:
  obtains (err) rs1 where
      "refine_logged e w n q (Suc k) (b, bw, rs) [] = (Inl (ValueError, rs1), [])"
  | (go) avg tw rs1 where "avg > b"
      "refine_logged e w n q (Suc k) (b, bw, rs) []
         = (fst (refine_logged e w n q k (avg, Some tw, rs1) []),
            \<lparr>round_avg = avg, round_best = b, round_weights = Some tw\<rparr>
              # snd (refine_logged e w n q k (avg, Some tw, rs1) []))"
  | (stop) avg rs1 where "\<not> avg > b"
      "refine_logged e w n q (Suc k) (b, bw, rs) []
         = (Inr (b, bw, rs1), [\<lparr>round_avg = avg, round_best = b, round_weights = None\<rparr>])"
proof -
  obtain bsm tops rs1 where t: "top_submodels e w n q rs = (bsm, tops, rs1)"
    by (cases "top_submodels e w n q rs") auto
  show thesis
  proof (cases "tops = []")
    case True
    then show thesis using t err by (simp add: unzip_top_def)
  next
    case False
    show thesis
    proof (cases "np_mean (map fst tops) > b")
      case True
      have "refine_logged e w n q (Suc k) (b, bw, rs) []
         = refine_logged e w n q k (np_mean (map fst tops), Some (top_weights bsm (map snd tops) q), rs1)
             [\<lparr>round_avg = np_mean (map fst tops), round_best = b, round_weights = Some (top_weights bsm (map snd tops) q)\<rparr>]"
        using t False True by (simp add: unzip_top_def Let_def)
      then show thesis using go[OF True] by (subst (asm) refine_logged_append) simp
    next
      case F: False
      then show thesis using t False stop[OF F] by (simp add: unzip_top_def)
    qed
  qed
qed


declare refine_logged.simps(2) [simp del]

lemma refine_logged_length: "length (snd (refine_logged e w n q k st [])) \<le> k"
proof (induction k arbitrary: st)
  case 0
  then show ?case by simp
next
  case (Suc k st)
  obtain b bw rs where st: "st = (b, bw, rs)" by (metis prod_cases3)
  show ?case unfolding st
    by (cases rule: refine_logged_step[of e w n q k b bw rs]) (use Suc.IH in auto)
qed

lemma refine_logged_chain:
  "(snd (refine_logged e w n q k (b, bw, rs) []) \<noteq> []
      \<longrightarrow> round_best (hd (snd (refine_logged e w n q k (b, bw, rs) []))) = b)
   \<and> (\<forall>j. Suc j < length (snd (refine_logged e w n q k (b, bw, rs) []))
      \<longrightarrow> improved (snd (refine_logged e w n q k (b, bw, rs) []) ! j)
        \<and> round_best (snd (refine_logged e w n q k (b, bw, rs) []) ! Suc j)
          = round_avg (snd (refine_logged e w n q k (b, bw, rs) []) ! j))"
proof (induction k arbitrary: b bw rs)
  case 0
  then show ?case by simp
next
  case (Suc k)
  show ?case
  proof (cases rule: refine_logged_step[of e w n q k b bw rs])
    case (err rs1)
    then show ?thesis by simp
  next
    case (go avg tw rs1)
    let ?T = "snd (refine_logged e w n q k (avg, Some tw, rs1) [])"
    let ?r = "\<lparr>round_avg = avg, round_best = b, round_weights = Some tw\<rparr>"
    have T: "snd (refine_logged e w n q (Suc k) (b, bw, rs) []) = ?r # ?T"
      using go(2) by simp
    have IH1: "?T \<noteq> [] \<longrightarrow> round_best (hd ?T) = avg"
      and IH2: "\<forall>j. Suc j < length ?T \<longrightarrow> improved (?T ! j) \<and> round_best (?T ! Suc j) = round_avg (?T ! j)"
      using Suc.IH[of avg "Some tw" rs1] by blast+
    have imp: "improved ?r" using go(1) by (simp add: improved_def)
    have "\<forall>j. Suc j < length (?r # ?T) \<longrightarrow> improved ((?r # ?T) ! j)
        \<and> round_best ((?r # ?T) ! Suc j) = round_avg ((?r # ?T) ! j)"
    proof (intro allI impI)
      fix j assume j: "Suc j < length (?r # ?T)"
      show "improved ((?r # ?T) ! j) \<and> round_best ((?r # ?T) ! Suc j) = round_avg ((?r # ?T) ! j)"
      proof (cases j)
        case 0
        then have "?T \<noteq> []" using j by auto
        then show ?thesis using 0 IH1 imp by (simp add: hd_conv_nth)
      next
        case (Suc j')
        then show ?thesis using j IH2 by simp
      qed
    qed
    then show ?thesis unfolding T by simp
  next
    case (stop avg rs1)
    then show ?thesis by simp
  qed
qed

lemma refine_logged_early:
  assumes "fst (refine_logged e w n q k (b, bw, rs) []) = Inr r"
    and "length (snd (refine_logged e w n q k (b, bw, rs) [])) < k"
  shows "snd (refine_logged e w n q k (b, bw, rs) []) \<noteq> []
    \<and> \<not> improved (last (snd (refine_logged e w n q k (b, bw, rs) [])))"
  using assms
proof (induction k arbitrary: b bw rs)
  case 0
  then show ?case by simp
next
  case (Suc k)
  show ?case
  proof (cases rule: refine_logged_step[of e w n q k b bw rs])
    case (err rs1)
    then show ?thesis using Suc.prems by simp
  next
    case (go avg tw rs1)
    then show ?thesis using Suc.prems Suc.IH[of avg "Some tw" rs1] by simp
  next
    case (stop avg rs1)
    then show ?thesis by (simp add: improved_def)
  qed
qed

lemma refine_logged_result:
  assumes "fst (refine_logged e w n q k (b, bw, rs) []) = Inr (s, wo, rs')"
  shows "b \<le> s
    \<and> (\<forall>r \<in> set (snd (refine_logged e w n q k (b, bw, rs) [])). b \<le> round_best r)
    \<and> (if filter improved (snd (refine_logged e w n q k (b, bw, rs) [])) = []
        then s = b \<and> wo = bw
        else s = round_avg (last (filter improved (snd (refine_logged e w n q k (b, bw, rs) []))))
           \<and> wo = round_weights (last (filter improved (snd (refine_logged e w n q k (b, bw, rs) []))))
           \<and> wo \<noteq> None)"
  using assms
proof (induction k arbitrary: b bw rs)
  case 0
  then show ?case by simp
next
  case (Suc k)
  show ?case
  proof (cases rule: refine_logged_step[of e w n q k b bw rs])
    case (err rs1)
    then show ?thesis using Suc.prems by simp
  next
    case (go avg tw rs1)
    let ?T = "snd (refine_logged e w n q k (avg, Some tw, rs1) [])"
    let ?r = "\<lparr>round_avg = avg, round_best = b, round_weights = Some tw\<rparr>"
    have T: "snd (refine_logged e w n q (Suc k) (b, bw, rs) []) = ?r # ?T"
      using go(2) by simp
    have "fst (refine_logged e w n q k (avg, Some tw, rs1) []) = Inr (s, wo, rs')"
      using go(2) Suc.prems by simp
    from Suc.IH[OF this]
    have IH: "avg \<le> s" "\<forall>r \<in> set ?T. avg \<le> round_best r"
      "if filter improved ?T = [] then s = avg \<and> wo = Some tw
       else s = round_avg (last (filter improved ?T))
          \<and> wo = round_weights (last (filter improved ?T)) \<and> wo \<noteq> None"
      by blast+
    have imp: "improved ?r" using go(1) by (simp add: improved_def)
    have 1: "b \<le> s" using IH(1) go(1) by simp
    have 2: "\<forall>r \<in> set (?r # ?T). b \<le> round_best r" using IH(2) go(1) by auto
    have 3: "s = round_avg (last (filter improved (?r # ?T)))
       \<and> wo = round_weights (last (filter improved (?r # ?T))) \<and> wo \<noteq> None"
      using IH(3) imp by (cases "filter improved ?T = []") auto
    have 4: "filter improved (?r # ?T) \<noteq> []" using imp by simp
    show ?thesis unfolding T if_not_P[OF 4] using 1 2 3 by blast
  next
    case (stop avg rs1)
    then show ?thesis using Suc.prems by (simp add: improved_def)
  qed
qed

lemma length_produce_submodels: "length (fst (produce_submodels e w n rs)) = length w"
  by (simp add: produce_submodels_def Let_def split_beta reshape_def)

lemma top_submodels_parts:
  "fst (top_submodels e w n q rs) = fst (produce_submodels e w n rs)"
  "length (fst (snd (top_submodels e w n q rs))) = min q n"
  "snd (snd (top_submodels e w n q rs)) = snd (produce_submodels e w n rs)"
  by (simp_all add: top_submodels_def Let_def split_beta evaluate_submodels_def min_def)

lemma refine_Suc_error:
  assumes "q = 0 \<or> n = 0"
  shows "refine e w n q (Suc k) (b, bw, rs) = Inl (ValueError, snd (produce_submodels e w n rs))"
proof -
  obtain bsm tops rs1 where t: "top_submodels e w n q rs = (bsm, tops, rs1)"
    by (cases "top_submodels e w n q rs") auto
  have "length tops = min q n" "rs1 = snd (produce_submodels e w n rs)"
    using top_submodels_parts(2,3)[of e w n q rs] t by simp_all
  then show ?thesis using assms t by (auto simp: unzip_top_def)
qed

lemma refine_no_error:
  assumes "0 < q" "0 < n"
  shows "\<exists>r. refine e w n q k st = Inr r"
proof (induction k arbitrary: st)
  case 0
  show ?case by (simp del: split_paired_Ex)
next
  case (Suc k st)
  obtain b bw rs where st: "st = (b, bw, rs)" by (metis prod_cases3)
  obtain bsm tops rs1 where t: "top_submodels e w n q rs = (bsm, tops, rs1)"
    by (metis prod_cases3)
  have "length tops = min q n"
    using top_submodels_parts(2)[of e w n q rs] t by simp
  then have ne: "tops \<noteq> []" using assms by auto
  show ?case unfolding st using t ne Suc.IH
    by (simp add: unzip_top_def Let_def)
qed

lemma refine_length:
  assumes "refine e w n q k (b, bw, rs) = Inr (s, Some vw, rs')"
    and "\<forall>x. bw = Some x \<longrightarrow> length x = length w"
  shows "length vw = length w"
  using assms
proof (induction k arbitrary: b bw rs)
  case 0
  then show ?case by simp
next
  case (Suc k)
  obtain bsm tops rs1 where t: "top_submodels e w n q rs = (bsm, tops, rs1)"
    by (cases "top_submodels e w n q rs") auto
  have lb: "length bsm = length w"
    using top_submodels_parts(1)[of e w n q rs] t by (simp add: length_produce_submodels)
  show ?case
  proof (cases "tops = []")
    case True
    then show ?thesis using Suc.prems t by (simp add: unzip_top_def)
  next
    case False
    show ?thesis
    proof (cases "np_mean (map fst tops) > b")
      case True
      have "refine e w n q k (np_mean (map fst tops), Some (top_weights bsm (map snd tops) q), rs1)
          = Inr (s, Some vw, rs')"
        using Suc.prems(1) t False True by (simp add: unzip_top_def Let_def)
      then show ?thesis
        by (rule Suc.IH) (simp add: top_weights_def lb)
    next
      case F: False
      then show ?thesis using Suc.prems t False by (simp add: unzip_top_def Let_def)
    qed
  qed
qed

lemma refine_result:
  assumes "refine e w n q k (b, bw, rs) = Inr (s, wo, rs')"
  shows "b \<le> s \<and> (b < s \<longrightarrow> wo \<noteq> None) \<and> (s = b \<longrightarrow> wo = bw)"
proof -
  let ?T = "snd (refine_logged e w n q k (b, bw, rs) [])"
  have f: "fst (refine_logged e w n q k (b, bw, rs) []) = Inr (s, wo, rs')"
    using assms by (simp add: fst_refine_logged)
  note R = refine_logged_result[OF f]
  show ?thesis
  proof (cases "filter improved ?T = []")
    case True
    then show ?thesis using R by simp
  next
    case False
    then have m: "last (filter improved ?T) \<in> set (filter improved ?T)"
      by (rule last_in_set)
    then have "improved (last (filter improved ?T))" "last (filter improved ?T) \<in> set ?T" by auto
    then have "b < round_avg (last (filter improved ?T))"
      using R by (auto simp: improved_def)
    then show ?thesis using R False by auto
  qed
qed

lemma yield_best_weights_props:
  assumes "yield_best_weights e w n rs q = Inr (s, wo, rs')"
  shows "sentinel \<le> s" "sentinel < s \<Longrightarrow> \<exists>vw. wo = Some vw \<and> length vw = length w" "0 < n" "0 < q"
proof -
  have r: "refine e w n q 5 (sentinel, None, rs) = Inr (s, wo, rs')"
    using assms by (simp add: yield_best_weights_def)
  show "sentinel \<le> s" using refine_result[OF r] by simp
  show "\<exists>vw. wo = Some vw \<and> length vw = length w" if "sentinel < s"
  proof -
    from refine_result[OF r] that obtain vw where vw: "wo = Some vw" by auto
    with refine_length[of e w n q 5 sentinel None rs s vw rs'] r show ?thesis by simp
  qed
  have five: "(5::nat) = Suc 4" by simp
  have "\<not> (q = 0 \<or> n = 0)"
  proof
    assume a: "q = 0 \<or> n = 0"
    have "refine e w n q 5 (sentinel, None, rs) = Inl (ValueError, snd (produce_submodels e w n rs))"
      unfolding five by (rule refine_Suc_error[OF a])
    with r show False by simp
  qed
  then show "0 < n" "0 < q" by auto
qed

text \<open>
  Claim C5. The refinement loop runs at most five rounds. The running best score of
  the first round is the sentinel, every round but the last one strictly improved the
  running best score (which the next round then compares with), and when the loop
  returns after fewer than five rounds, its last round did not improve: the loop stops
  at the first round whose average top score does not exceed the running best. The
  logged loop returns what \<open>yield_best_weights\<close> returns.
\<close>

theorem yield_best_weights_rounds:
  "fst (yield_best_weights_logged e w n rs q) = yield_best_weights e w n rs q
   \<and> length (snd (yield_best_weights_logged e w n rs q)) \<le> 5
   \<and> (snd (yield_best_weights_logged e w n rs q) \<noteq> []
        \<longrightarrow> round_best (hd (snd (yield_best_weights_logged e w n rs q))) = sentinel)
   \<and> (\<forall>j. Suc j < length (snd (yield_best_weights_logged e w n rs q))
        \<longrightarrow> improved (snd (yield_best_weights_logged e w n rs q) ! j)
          \<and> round_best (snd (yield_best_weights_logged e w n rs q) ! Suc j)
            = round_avg (snd (yield_best_weights_logged e w n rs q) ! j))
   \<and> (\<forall>r. yield_best_weights e w n rs q = Inr r
           \<and> length (snd (yield_best_weights_logged e w n rs q)) < 5
        \<longrightarrow> snd (yield_best_weights_logged e w n rs q) \<noteq> []
          \<and> \<not> improved (last (snd (yield_best_weights_logged e w n rs q))))"
proof -
  let ?T = "snd (refine_logged e w n q 5 (sentinel, None, rs) [])"
  have 1: "fst (refine_logged e w n q 5 (sentinel, None, rs) [])
      = refine e w n q 5 (sentinel, None, rs)"
    by (rule fst_refine_logged)
  have 2: "length ?T \<le> 5" by (rule refine_logged_length)
  note 3 = refine_logged_chain[of e w n q 5 sentinel None rs]
  have 4: "\<forall>r. refine e w n q 5 (sentinel, None, rs) = Inr r \<and> length ?T < 5
      \<longrightarrow> ?T \<noteq> [] \<and> \<not> improved (last ?T)"
    using refine_logged_early[of e w n q 5 sentinel None rs] 1 by auto
  show ?thesis
    unfolding yield_best_weights_logged_def yield_best_weights_def
    using 1 2 3 4 by blast
qed

theorem yield_best_weights_rounds_witness:
  "length (snd (yield_best_weights_logged (rotation_env (\<lambda>m. - 1) argsort_stable)
       [1 / 2, 1 / 2] 20 1 1)) = 2
   \<and> improved (snd (yield_best_weights_logged (rotation_env (\<lambda>m. - 1) argsort_stable)
       [1 / 2, 1 / 2] 20 1 1) ! 0)
   \<and> \<not> improved (last (snd (yield_best_weights_logged (rotation_env (\<lambda>m. - 1) argsort_stable)
       [1 / 2, 1 / 2] 20 1 1)))"
proof -
  let ?e = "rotation_env (\<lambda>m. - 1) argsort_stable"
  have run: "yield_best_weights_logged ?e [1 / 2, 1 / 2] 20 1 1 =
      (Inr (- 1, Some [1, 0], 3),
       [\<lparr>round_avg = - 1, round_best = - 10000000, round_weights = Some [1, 0]\<rparr>,
        \<lparr>round_avg = - 1, round_best = - 1, round_weights = None\<rparr>])"
    by code_simp
  have len: "length (snd (yield_best_weights_logged ?e [1 / 2, 1 / 2] 20 1 1)) = 2"
    unfolding run by simp
  note R = yield_best_weights_rounds[of ?e "[1 / 2, 1 / 2]" 20 1 1]
  have a: "improved (snd (yield_best_weights_logged ?e [1 / 2, 1 / 2] 20 1 1) ! 0)"
    using R len by simp
  have "yield_best_weights ?e [1 / 2, 1 / 2] 20 1 1 = Inr (- 1, Some [1, 0], 3)"
    using R run by simp
  then have b: "\<not> improved (last (snd (yield_best_weights_logged ?e [1 / 2, 1 / 2] 20 1 1)))"
    using R len by simp
  show ?thesis using len a b by blast
qed




section \<open>Properties of the outer convergence loop\<close>

lemma selection_quantile_of_div: "selection_quantile_of n = n div 20"
proof -
  have "(5 / 100 * of_nat n :: rat) = of_nat n / of_nat 20" by simp
  then have "\<lfloor>5 / 100 * of_nat n :: rat\<rfloor> = int (n div 20)"
    by (simp only: floor_divide_of_nat_eq)
  then show ?thesis by (simp add: selection_quantile_of_def py_int_def)
qed

lemma yield_best_weights_length:
  assumes "yield_best_weights e w n rs q = Inr (s, Some vw, rs')"
  shows "length vw = length w"
  using refine_length[of e w n q 5 sentinel None rs s vw rs'] assms
  by (simp add: yield_best_weights_def)




lemma fit_loop_early:
  assumes ybw: "yield_best_weights e top_vw n_subs rs q = Inr (sc, wo, rs')"
    and acc: "top_sc < sc" and ts: "sentinel \<le> top_sc"
  shows "\<exists>vw. wo = Some vw
     \<and> (k \<le> length (filter (\<lambda>x. threshold n_subs \<le> x) vw) \<longrightarrow>
         fit_loop e n_subs q k top_sc top_vw rs
           = Some (Inr \<lparr>final_top_score = sc, final_top_var_weights = vw, final_score = sc,
                         final_var_weights = Some vw, final_random_state = rs'\<rparr>))"
proof -
  have "sentinel < sc" using acc ts by simp
  then obtain vw where vw: "wo = Some vw"
    using yield_best_weights_props(2)[OF ybw] by blast
  have n: "n_subs \<noteq> 0" using yield_best_weights_props(3)[OF ybw] by simp
  show ?thesis
    by (subst fit_loop.simps) (use ybw acc vw n in simp)
qed

lemma fit_twice_aux:
  assumes "random_state est = Seed s" "fit e F k est = Some (r, est')"
  shows "fit e F k est' = Some (r, est')"
proof -
  have same: "n_submodels est' = n_submodels est \<and> random_state est' = Seed s"
    using assms
    by (auto simp: fit_def Let_def split: option.splits sum.splits prod.splits)
  show ?thesis
    using assms same
    by (auto simp: fit_def Let_def split: option.splits sum.splits prod.splits)
qed

text \<open>
  The outer loop always ends: every accepted round strictly raises the running best
  score, and the scores a round can return form a finite set.
\<close>

lemma finite_avg_candidates: "finite (avg_candidates e F n q)"
proof -
  have "finite {m :: bool list. length m = F}"
    using finite_lists_length_eq[of "UNIV :: bool set" F] by simp
  then have "finite (evaluate e ` {m. length m = F})" by simp
  then have "finite {l. set l \<subseteq> evaluate e ` {m. length m = F} \<and> length l = min q n}"
    by (rule finite_lists_length_eq)
  then show ?thesis unfolding avg_candidates_def by (rule finite_imageI)
qed

lemma top_submodels_avg:
  assumes "top_submodels e w n q rs = (bsm, tops, rs')"
  shows "np_mean (map fst tops) \<in> avg_candidates e (length w) n q"
proof -
  have bsm: "bsm = fst (produce_submodels e w n rs)"
    using top_submodels_parts(1)[of e w n q rs] assms by simp
  have lb: "length bsm = length w" by (simp add: bsm length_produce_submodels)
  have tops: "tops = take q (sort_key (\<lambda>x. - fst x) (evaluate_submodels e bsm n))"
    using assms by (simp add: top_submodels_def Let_def split_beta bsm)
  have "set tops \<subseteq> set (evaluate_submodels e bsm n)"
    unfolding tops using set_take_subset[of q "sort_key (\<lambda>x. - fst x) (evaluate_submodels e bsm n)"]
    by simp
  then have "set (map fst tops) \<subseteq> evaluate e ` {m. length m = length w}"
    by (auto simp: evaluate_submodels_def column_def lb)
  moreover have "length (map fst tops) = min q n"
    using top_submodels_parts(2)[of e w n q rs] assms by simp
  ultimately show ?thesis unfolding avg_candidates_def by blast
qed

lemma refine_score_candidates:
  assumes "refine e w n q k (b, bw, rs) = Inr (s, wo, rs')"
  shows "s = b \<or> s \<in> avg_candidates e (length w) n q"
  using assms
proof (induction k arbitrary: b bw rs)
  case 0
  then show ?case by simp
next
  case (Suc k)
  obtain bsm tops rs1 where t: "top_submodels e w n q rs = (bsm, tops, rs1)"
    by (metis prod_cases3)
  note A = top_submodels_avg[OF t]
  show ?case
  proof (cases "tops = []")
    case True
    then show ?thesis using Suc.prems t by (simp add: unzip_top_def)
  next
    case False
    show ?thesis
    proof (cases "np_mean (map fst tops) > b")
      case True
      have "refine e w n q k (np_mean (map fst tops), Some (top_weights bsm (map snd tops) q), rs1)
          = Inr (s, wo, rs')"
        using Suc.prems t False True by (simp add: unzip_top_def Let_def)
      from Suc.IH[OF this] show ?thesis using A by auto
    next
      case F: False
      then show ?thesis using Suc.prems t False by (simp add: unzip_top_def Let_def)
    qed
  qed
qed

lemma yield_best_weights_candidates:
  assumes "yield_best_weights e w n rs q = Inr (s, Some vw, rs')"
  shows "s \<in> avg_candidates e (length w) n q"
proof -
  have r: "refine e w n q 5 (sentinel, None, rs) = Inr (s, Some vw, rs')"
    using assms by (simp add: yield_best_weights_def)
  have "s \<noteq> sentinel" using refine_result[OF r] by auto
  then show ?thesis using refine_score_candidates[OF r] by simp
qed

lemma fit_loop_terminates: "\<exists>y. fit_loop e n q k ts tw rs = Some y"
proof (induction "card {a \<in> avg_candidates e (length tw) n q. ts < a}"
    arbitrary: ts tw rs rule: less_induct)
  case less
  show ?case
  proof (cases "yield_best_weights e tw n rs q")
    case (Inl err)
    then show ?thesis by (subst fit_loop.simps) simp
  next
    case (Inr r)
    obtain sc wo rs' where r: "r = (sc, wo, rs')" by (metis prod_cases3)
    note ybw = Inr[unfolded r]
    show ?thesis
    proof (cases "ts < sc \<and> n \<noteq> 0 \<and> (\<exists>vw. wo = Some vw
        \<and> \<not> k \<le> length (filter (\<lambda>x. threshold n \<le> x) vw))")
      case True
      then obtain vw where vw: "wo = Some vw"
        "\<not> k \<le> length (filter (\<lambda>x. threshold n \<le> x) vw)" by blast
      have s: "fit_loop e n q k ts tw rs = fit_loop e n q k sc vw rs'"
        by (subst fit_loop.simps) (use ybw True vw in simp)
      have l: "length vw = length tw"
        using yield_best_weights_length[of e tw n rs q sc vw rs'] ybw vw by simp
      have m: "sc \<in> avg_candidates e (length tw) n q"
        using yield_best_weights_candidates[of e tw n rs q sc vw rs'] ybw vw by simp
      have "{a \<in> avg_candidates e (length tw) n q. sc < a}
          \<subset> {a \<in> avg_candidates e (length tw) n q. ts < a}"
        using m True by auto
      then have "card {a \<in> avg_candidates e (length vw) n q. sc < a}
          < card {a \<in> avg_candidates e (length tw) n q. ts < a}"
        unfolding l by (intro psubset_card_mono) (simp_all add: finite_avg_candidates)
      from less[OF this] show ?thesis using s by simp
    next
      case False
      then show ?thesis
        by (subst fit_loop.simps) (use ybw in \<open>auto split: option.splits\<close>)
    qed
  qed
qed

lemma fit_terminates: "\<exists>y. fit e F k est = Some y"
proof -
  obtain y where "fit_loop e (n_submodels est) (selection_quantile_of (n_submodels est)) k
      sentinel (replicate F (1 / 2)) (check_random_state e (random_state est)) = Some y"
    using fit_loop_terminates[of e "n_submodels est" "selection_quantile_of (n_submodels est)" k
        sentinel "replicate F (1 / 2)" "check_random_state e (random_state est)"]
    by (elim exE)
  then show ?thesis
    by (auto simp: fit_def Let_def split: sum.splits option.splits prod.splits)
qed

section \<open>Properties of the support mask\<close>









lemma fit_loop_demo40:
  "fit_loop (rotation_env (\<lambda>m. - 1) argsort_stable) 40 2 2 sentinel [1 / 2, 1 / 2] 1
     = Some (Inr \<lparr>final_top_score = - 1, final_top_var_weights = [1, 1 / 2],
                   final_score = - 1, final_var_weights = Some [1, 0],
                   final_random_state = 5\<rparr>)"
proof -
  let ?e = "rotation_env (\<lambda>m. - 1) argsort_stable"
  have r1: "yield_best_weights ?e [1 / 2, 1 / 2] 40 1 2 = Inr (- 1, Some [1, 1 / 2], 3)"
    by code_simp
  have r2: "yield_best_weights ?e [1, 1 / 2] 40 3 2 = Inr (- 1, Some [1, 0], 5)"
    by code_simp
  have th: "threshold 40 = 79 / 80" by (simp add: threshold_def)
  have "fit_loop ?e 40 2 2 sentinel [1 / 2, 1 / 2] 1 = fit_loop ?e 40 2 2 (- 1) [1, 1 / 2] 3"
    by (subst fit_loop.simps, subst r1) (simp add: th sentinel_def)
  also have "\<dots> = Some (Inr \<lparr>final_top_score = - 1, final_top_var_weights = [1, 1 / 2],
                   final_score = - 1, final_var_weights = Some [1, 0],
                   final_random_state = 5\<rparr>)"
    by (subst fit_loop.simps, subst r2) (simp add: th)
  finally show ?thesis .
qed

text \<open>
  Claim C3, where the code departs from it. With 40 submodels, two features, two
  features to select, a scorer that gives every submodel the score \<open>-1\<close> and the
  rotation generator seeded with 1, the first refinement call is accepted with the
  weights \<open>[1, 1/2]\<close>, which become the tracked best vector. The second call returns
  \<open>[1, 0]\<close> with the same score, so it is rejected and the loop ends; \<^verbatim>\<open>weights_\<close> is
  then the rejected \<open>[1, 0]\<close>, not the tracked \<open>[1, 1/2]\<close>, and \<^verbatim>\<open>support_\<close> is computed
  from it.
\<close>

theorem fit_weights_from_failed_round:
  "fit_loop (rotation_env (\<lambda>m. - 1) argsort_stable) 40 2 2 sentinel [1 / 2, 1 / 2] 1
     = Some (Inr \<lparr>final_top_score = - 1, final_top_var_weights = [1, 1 / 2],
                   final_score = - 1, final_var_weights = Some [1, 0],
                   final_random_state = 5\<rparr>)
   \<and> fit (rotation_env (\<lambda>m. - 1) argsort_stable) 2 2
       \<lparr>n_submodels = 40, random_state = Seed 1, weights_attr = None, support_attr = None\<rparr>
     = Some (None, \<lparr>n_submodels = 40, random_state = Seed 1,
                     weights_attr = Some [1, 0], support_attr = Some [True, True]\<rparr>)"
proof -
  let ?e = "rotation_env (\<lambda>m. - 1) argsort_stable"
  note fl = fit_loop_demo40
  have sq: "selection_quantile_of 40 = 2" by (simp add: selection_quantile_of_div)
  have rp: "replicate 2 (1 / 2 :: rat) = [1 / 2, 1 / 2]" by (simp add: numeral_2_eq_2)
  have cr: "check_random_state ?e (Seed 1) = 1" by (simp add: rotation_env_def)
  have at: "assign_true (replicate 2 False) (top_indices ?e [1, 0] 2) = Inr [True, True]"
    by code_simp
  have ft: "fit ?e 2 2 \<lparr>n_submodels = 40, random_state = Seed 1, weights_attr = None, support_attr = None\<rparr>
     = Some (None, \<lparr>n_submodels = 40, random_state = Seed 1,
                     weights_attr = Some [1, 0], support_attr = Some [True, True]\<rparr>)"
    unfolding fit_def Let_def vissa.simps sq rp cr fl
    by (simp add: at)
  show ?thesis using fl ft by blast
qed

text \<open>
  Claim C6. In any iteration of the outer loop (any running best score not below the
  sentinel, any tracked weights and generator state): when the refinement call
  returns a score above the running best, it returns a weight vector, and if at least
  \<open>n_features_to_select\<close> of its entries reach the threshold
  \<open>(n_subs - 0.5) / n_subs\<close>, the loop ends there. Its result holds that round's score
  and weights and the generator state that round left: no further refinement call,
  and so no further shuffle, is made.
\<close>

theorem fit_loop_early_stop:
  assumes ybw: "yield_best_weights e top_vw n_subs rs q = Inr (sc, wo, rs')"
    and acc: "top_sc < sc" and ts: "sentinel \<le> top_sc"
  shows "\<exists>vw. wo = Some vw
     \<and> (k \<le> length (filter (\<lambda>x. threshold n_subs \<le> x) vw) \<longrightarrow>
         fit_loop e n_subs q k top_sc top_vw rs
           = Some (Inr \<lparr>final_top_score = sc, final_top_var_weights = vw, final_score = sc,
                         final_var_weights = Some vw, final_random_state = rs'\<rparr>))"
  using fit_loop_early[OF assms] .

theorem fit_loop_early_stop_witness:
  "fit_loop (rotation_env (\<lambda>m. - 1) argsort_stable) 20 1 1 sentinel [1 / 2, 1 / 2] 0
     = Some (Inr \<lparr>final_top_score = - 1, final_top_var_weights = [1, 1], final_score = - 1,
                   final_var_weights = Some [1, 1], final_random_state = 2\<rparr>)"
proof -
  let ?e = "rotation_env (\<lambda>m. - 1) argsort_stable"
  have r: "yield_best_weights ?e [1 / 2, 1 / 2] 20 0 1 = Inr (- 1, Some [1, 1], 2)"
    by code_simp
  have a: "sentinel < - 1" "sentinel \<le> sentinel" by (simp_all add: sentinel_def)
  have c: "1 \<le> length (filter (\<lambda>x. threshold 20 \<le> x) [1, 1])"
    by (simp add: threshold_def)
  from fit_loop_early_stop[OF r a, of 1] c show ?thesis by simp
qed


text \<open>
  Claim C8. With an integer seed, \<open>fit\<close> ends, and a second \<open>fit\<close> on the estimator
  that the first one left behind (same data and scorer, that is the same environment)
  ends the same way and leaves the same estimator, in particular the same
  \<^verbatim>\<open>support_\<close>.
\<close>

theorem fit_twice_same_support:
  assumes "random_state est = Seed s"
  shows "\<exists>r est'. fit e F k est = Some (r, est') \<and> fit e F k est' = Some (r, est')"
proof -
  obtain r est' where f: "fit e F k est = Some (r, est')"
    using fit_terminates[of e F k est] by fastforce
  have "fit e F k est' = Some (r, est')" by (rule fit_twice_aux[OF assms f])
  then show ?thesis using f by blast
qed

lemma fit_demo20:
  "fit (rotation_env (\<lambda>m. - 1) argsort_stable) 2 1
       \<lparr>n_submodels = 20, random_state = Seed 0, weights_attr = None, support_attr = None\<rparr>
     = Some (None, \<lparr>n_submodels = 20, random_state = Seed 0,
                     weights_attr = Some [1, 1], support_attr = Some [True, False]\<rparr>)"
proof -
  let ?e = "rotation_env (\<lambda>m. - 1) argsort_stable"
  have r1: "yield_best_weights ?e [1 / 2, 1 / 2] 20 0 1 = Inr (- 1, Some [1, 1], 2)"
    by code_simp
  have th: "threshold 20 = 39 / 40" by (simp add: threshold_def)
  have fl: "fit_loop ?e 20 1 1 sentinel [1 / 2, 1 / 2] 0
     = Some (Inr \<lparr>final_top_score = - 1, final_top_var_weights = [1, 1],
                   final_score = - 1, final_var_weights = Some [1, 1],
                   final_random_state = 2\<rparr>)"
    by (subst fit_loop.simps, subst r1) (simp add: th sentinel_def)
  have sq: "selection_quantile_of 20 = 1" by (simp add: selection_quantile_of_div)
  have rp: "replicate 2 (1 / 2 :: rat) = [1 / 2, 1 / 2]" by (simp add: numeral_2_eq_2)
  have cr: "check_random_state ?e (Seed 0) = 0" by (simp add: rotation_env_def)
  have at: "assign_true (replicate 2 False) (top_indices ?e [1, 1] 1) = Inr [True, False]"
    by code_simp
  show ?thesis
    unfolding fit_def Let_def vissa.simps sq rp cr fl
    by (simp only: fit_locals.simps option.case sum.case prod.case at) simp
qed

theorem fit_twice_same_support_witness:
  "fit (rotation_env (\<lambda>m. - 1) argsort_stable) 2 1
       \<lparr>n_submodels = 20, random_state = Seed 0,
        weights_attr = Some [1, 1], support_attr = Some [True, False]\<rparr>
     = Some (None, \<lparr>n_submodels = 20, random_state = Seed 0,
                     weights_attr = Some [1, 1], support_attr = Some [True, False]\<rparr>)"
proof -
  let ?e = "rotation_env (\<lambda>m. - 1) argsort_stable"
  let ?est = "\<lparr>n_submodels = 20, random_state = Seed 0 :: nat random_state,
      weights_attr = None, support_attr = None\<rparr>"
  have s: "random_state ?est = Seed 0" by simp
  from fit_twice_same_support[OF s, of ?e 2 1]
  obtain r est' where f: "fit ?e 2 1 ?est = Some (r, est')"
    and g: "fit ?e 2 1 est' = Some (r, est')"
    by blast
  from f have "r = None" and "est' = \<lparr>n_submodels = 20, random_state = Seed 0,
      weights_attr = Some [1, 1], support_attr = Some [True, False]\<rparr>"
    unfolding fit_demo20 by simp_all
  then show ?thesis using g by simp
qed





lemma fit_loop_value_error:
  assumes "q = 0 \<or> n = 0"
  shows "fit_loop e n q k ts w rs = Some (Inl (ValueError, snd (produce_submodels e w n rs)))"
proof -
  have five: "(5::nat) = Suc 4" by simp
  have "yield_best_weights e w n rs q = Inl (ValueError, snd (produce_submodels e w n rs))"
    unfolding yield_best_weights_def five by (rule refine_Suc_error[OF assms])
  then show ?thesis by (subst fit_loop.simps) simp
qed

text \<open>
  Claim C10. \<open>fit\<close> takes \<open>int (0.05 * n_submodels)\<close> as the top-quantile size. Below
  20 submodels that size is 0, the slice of top submodels is empty, the first
  refinement round fails at the unpacking with a \<open>ValueError\<close>, and so does \<open>fit\<close>
  (leaving the attributes untouched). From 20 submodels on the size is positive, the
  slice of every round holds that many submodels, and the refinement call returns.
\<close>

theorem selection_quantile_precondition:
  "(n_submodels est < 20 \<longrightarrow>
      selection_quantile_of (n_submodels est) = 0
      \<and> fst (snd (top_submodels e w (n_submodels est) (selection_quantile_of (n_submodels est)) rs)) = []
      \<and> yield_best_weights e w (n_submodels est) rs (selection_quantile_of (n_submodels est))
          = Inl (ValueError, snd (produce_submodels e w (n_submodels est) rs))
      \<and> fit e F k est
          = Some (Some ValueError,
                  est\<lparr>random_state := store_random_state (random_state est)
                     (snd (produce_submodels e (replicate F (1 / 2)) (n_submodels est)
                        (check_random_state e (random_state est))))\<rparr>))
   \<and> (20 \<le> n_submodels est \<longrightarrow>
      0 < selection_quantile_of (n_submodels est)
      \<and> length (fst (snd (top_submodels e w (n_submodels est)
            (selection_quantile_of (n_submodels est)) rs)))
          = selection_quantile_of (n_submodels est)
      \<and> (\<exists>r. yield_best_weights e w (n_submodels est) rs
            (selection_quantile_of (n_submodels est)) = Inr r))"
proof (intro conjI impI)
  let ?n = "n_submodels est"
  let ?q = "selection_quantile_of ?n"
  assume lt: "?n < 20"
  show q0: "?q = 0" using lt by (simp add: selection_quantile_of_div)
  have "length (fst (snd (top_submodels e w ?n ?q rs))) = min ?q ?n"
    by (rule top_submodels_parts(2))
  then show "fst (snd (top_submodels e w ?n ?q rs)) = []" using q0 by simp
  have five: "(5::nat) = Suc 4" by simp
  show "yield_best_weights e w ?n rs ?q = Inl (ValueError, snd (produce_submodels e w ?n rs))"
    unfolding yield_best_weights_def five by (rule refine_Suc_error) (simp add: q0)
  have "fit_loop e ?n ?q k sentinel (replicate F (1 / 2)) (check_random_state e (random_state est))
      = Some (Inl (ValueError, snd (produce_submodels e (replicate F (1 / 2)) ?n
          (check_random_state e (random_state est)))))"
    by (rule fit_loop_value_error) (simp add: q0)
  then show "fit e F k est
          = Some (Some ValueError,
                  est\<lparr>random_state := store_random_state (random_state est)
                     (snd (produce_submodels e (replicate F (1 / 2)) ?n
                        (check_random_state e (random_state est))))\<rparr>)"
    by (simp add: fit_def Let_def)
next
  let ?n = "n_submodels est"
  let ?q = "selection_quantile_of ?n"
  assume ge: "20 \<le> ?n"
  show q: "0 < ?q" using ge by (simp add: selection_quantile_of_div div_greater_zero_iff)
  have "?q \<le> ?n" by (simp add: selection_quantile_of_div)
  then show "length (fst (snd (top_submodels e w ?n ?q rs))) = ?q"
    by (simp add: top_submodels_parts(2))
  have "0 < ?n" using ge by simp
  from refine_no_error[OF q this]
  show "\<exists>r. yield_best_weights e w ?n rs ?q = Inr r"
    unfolding yield_best_weights_def by blast
qed

theorem selection_quantile_precondition_witness:
  "selection_quantile_of 19 = 0
   \<and> fit (rotation_env (\<lambda>m. - 1) argsort_stable) 2 1
        \<lparr>n_submodels = 19, random_state = Seed 0, weights_attr = None, support_attr = None\<rparr>
      = Some (Some ValueError,
          \<lparr>n_submodels = 19, random_state = Seed 0, weights_attr = None, support_attr = None\<rparr>)
   \<and> 0 < selection_quantile_of 20
   \<and> (\<exists>r. yield_best_weights (rotation_env (\<lambda>m. - 1) argsort_stable) [1 / 2, 1 / 2] 20 0
          (selection_quantile_of 20) = Inr r)"
proof -
  let ?e = "rotation_env (\<lambda>m. - 1) argsort_stable"
  let ?a = "\<lparr>n_submodels = 19, random_state = Seed 0 :: nat random_state,
      weights_attr = None, support_attr = None\<rparr>"
  let ?b = "\<lparr>n_submodels = 20, random_state = Seed 0 :: nat random_state,
      weights_attr = None, support_attr = None\<rparr>"
  have a: "n_submodels ?a < 20" and b: "20 \<le> n_submodels ?b" by simp_all
  from selection_quantile_precondition[of ?a ?e "[1 / 2, 1 / 2]" 0 2 1] a
  have 1: "selection_quantile_of 19 = 0"
    and 2: "fit ?e 2 1 ?a = Some (Some ValueError, ?a)"
    by simp_all
  from selection_quantile_precondition[of ?b ?e "[1 / 2, 1 / 2]" 0 2 1] b
  have 3: "0 < selection_quantile_of 20"
    and 4: "\<exists>r. yield_best_weights ?e [1 / 2, 1 / 2] 20 0 (selection_quantile_of 20) = Inr r"
    by simp_all
  show ?thesis using 1 2 3 4 by blast
qed

section \<open>Properties of the interval expansion\<close>

lemma probe_left_keeps_right:
  assumes "probe ev n_cols thr limits st = Inr st'" "st_index st = 0" "length (st_borders st) = 2"
  shows "st_index st' = 0 \<and> st_borders st' ! 1 = st_borders st ! 1
     \<and> length (st_var_weights st') = length (st_var_weights st)
     \<and> length (st_borders st') = 2"
  using assms
  by (auto simp: probe_def Let_def np_set_def split: if_splits sum.splits)

lemma probe_right_out_of_range:
  assumes "st_index st = 1" "st_borders st ! 1 = int (length (st_var_weights st))"
    "limits ! 1 \<le> st_borders st ! 1"
  shows "probe ev n_cols thr limits st = Inl IndexError"
  using assms by (simp add: probe_def Let_def np_get_def)

lemma expand_interval_last_feature:
  assumes "0 < n_subs" "0 < n_cols" "length var_weights = n_cols"
    and "new_feature = int n_cols - 1"
  shows "expand_interval ev n_cols var_weights sc feats new_feature n_subs
     = Some (Inl IndexError)"
proof -
  let ?thr = "threshold n_subs"
  let ?lim = "[0, - (int n_cols - 1)]"
  let ?st = "\<lparr>st_borders = [new_feature - 1, new_feature + 1], st_index = 0,
              st_progress = True, st_score = sc, st_features = feats,
              st_var_weights = var_weights\<rparr>"
  have E: "expand_interval ev n_cols var_weights sc feats new_feature n_subs
      = expand_loop ev n_cols ?thr ?lim ?st"
    using assms(1) by (simp add: expand_interval_def)
  show ?thesis
  proof (cases "probe ev n_cols ?thr ?lim ?st")
    case (Inl err)
    have "err = IndexError"
      using Inl
      by (auto simp: probe_def Let_def np_get_def np_set_def evaluate_columns_def
          split: if_splits sum.splits)
    then show ?thesis unfolding E using Inl
      by (subst expand_loop.simps, subst Inl) simp
  next
    case (Inr st')
    from probe_left_keeps_right[OF Inr]
    have p: "st_index st' = 0" "st_borders st' ! 1 = new_feature + 1"
      "length (st_var_weights st') = n_cols"
      using assms(3) by simp_all
    let ?st2 = "st'\<lparr>st_progress := (if st_index st' = 1 then False else st_progress st'),
                   st_index := (st_index st' + 1) mod 2\<rparr>"
    have "probe ev n_cols ?thr ?lim ?st2 = Inl IndexError"
      by (rule probe_right_out_of_range) (use p assms in simp_all)
    then have 2: "expand_loop ev n_cols ?thr ?lim ?st2 = Some (Inl IndexError)"
      by (subst expand_loop.simps) (simp only: sum.case)
    have "expand_loop ev n_cols ?thr ?lim ?st = expand_loop ev n_cols ?thr ?lim ?st2"
      by (subst expand_loop.simps, subst Inr) (simp add: p)
    then show ?thesis unfolding E using 2 by simp
  qed
qed

text \<open>
  Claim C4, where the code departs from it. The limit of the right side is the
  negated last index, \<open>-(n_cols - 1)\<close>, but the border compared with it is not
  negated, so the test of line 232 never stops the right side. For three columns, the
  newly selected feature 2 and a scorer that never improves, the second pass of the
  loop reads \<^verbatim>\<open>var_weights[3]\<close>, one past the last column: an \<open>IndexError\<close>. The same
  happens for every matrix whenever the newly selected feature is the last column
  (lemma \<open>expand_interval_last_feature\<close>).
\<close>

theorem expand_interval_reads_past_last_column:
  "expand_interval (\<lambda>c. - 2) 3 [0, 0, 1] (- 1) [2] 2 20 = Some (Inl IndexError)"
proof -
  have "expand_interval (\<lambda>c. - 2) 3 [0, 0, 1] (- 1) [2] (int 3 - 1) 20 = Some (Inl IndexError)"
    by (rule expand_interval_last_feature) simp_all
  then show ?thesis by simp
qed

section \<open>Properties of the results store\<close>















end
